theory Spec2Isabelle
  imports Complex_Main "HOL-Library.Sublist"
begin

section \<open>Python strings\<close>

text \<open>
  A Python \<open>str\<close> is a sequence of Unicode code points and \<open>len\<close> counts code points.
  The transcripts are Russian, so a string is modelled as the list of its code points.
\<close>

type_synonym ustr = "nat list"

text \<open>The code points for which \<open>str.isspace()\<close> holds; \<open>str.split()\<close> splits at them.\<close>

definition is_space :: "nat \<Rightarrow> bool" where
  "is_space c = (c \<in> set [9, 10, 11, 12, 13, 28, 29, 30, 31, 32, 133, 160, 5760,
     8192, 8193, 8194, 8195, 8196, 8197, 8198, 8199, 8200, 8201, 8202,
     8232, 8233, 8239, 8287, 12288])"

text \<open>\<open>sep.join(xs)\<close>\<close>

fun join :: "ustr \<Rightarrow> ustr list \<Rightarrow> ustr" where
  "join sep [] = []"
| "join sep [x] = x"
| "join sep (x # y # ys) = x @ sep @ join sep (y # ys)"

text \<open>\<open>str(n)\<close> for a non-negative integer: its decimal digits.\<close>

fun str_nat :: "nat \<Rightarrow> ustr" where
  "str_nat n = (if n < 10 then [48 + n] else str_nat (n div 10) @ [48 + n mod 10])"

declare str_nat.simps [simp del]


section \<open>The retry loop of \<open>audio_to_text\<close> (main.py)\<close>

text \<open>
  What one call of \<open>recognizer.recognize_google\<close> does: it returns the text, raises
  \<open>sr.UnknownValueError\<close> (no speech detected), raises \<open>sr.RequestError\<close> (service
  unavailable), or raises anything else, which only the outer handler of
  \<open>audio_to_text\<close> catches.
\<close>

datatype outcome = Recognized ustr | UnknownValueError | RequestError | OtherError

text \<open>
  The effects of a run that the claims are about, in the order they happen.
  Sleeps are in milliseconds (\<open>time.sleep(5)\<close> is \<open>Sleep 5000\<close>).
\<close>

datatype event =
    Convert
  | Export nat
  | Call nat nat
  | Sleep nat
  | WriteOutput ustr
  | RemoveTemp

text \<open>How the \<open>for attempt in range(max_retries)\<close> loop ends.\<close>

datatype attempt_result = Success ustr | NoSuccess | Raised

definition max_retries :: nat where
  "max_retries = 5"

text \<open>
  The loop body, over the attempts still to run, for chunk \<open>k\<close>. \<open>rec k a\<close> is what
  the backend does at attempt \<open>a\<close> (0-based) on chunk \<open>k\<close>. Both handlers sleep 5 seconds
  unless the attempt was the last one.
\<close>

fun attempts :: "(nat \<Rightarrow> nat \<Rightarrow> outcome) \<Rightarrow> nat \<Rightarrow> nat list \<Rightarrow> event list \<times> attempt_result" where
  "attempts rec k [] = ([], NoSuccess)"
| "attempts rec k (attempt # rest) =
     (case rec k attempt of
        Recognized chunk_text \<Rightarrow> ([Call k attempt], Success chunk_text)
      | UnknownValueError \<Rightarrow>
          (if attempt < max_retries - 1
           then (let (ev, r) = attempts rec k rest in (Call k attempt # Sleep 5000 # ev, r))
           else (let (ev, r) = attempts rec k rest in (Call k attempt # ev, r)))
      | RequestError \<Rightarrow>
          (if attempt < max_retries - 1
           then (let (ev, r) = attempts rec k rest in (Call k attempt # Sleep 5000 # ev, r))
           else (let (ev, r) = attempts rec k rest in (Call k attempt # ev, r)))
      | OtherError \<Rightarrow> ([Call k attempt], Raised))"

text \<open>\<open>for attempt in range(max_retries)\<close>\<close>

definition recognize_chunk :: "(nat \<Rightarrow> nat \<Rightarrow> outcome) \<Rightarrow> nat \<Rightarrow> event list \<times> attempt_result" where
  "recognize_chunk rec k = attempts rec k [0..<max_retries]"

definition transient :: "outcome \<Rightarrow> bool" where
  "transient out = (out = UnknownValueError \<or> out = RequestError)"

fun is_call :: "event \<Rightarrow> bool" where
  "is_call (Call k a) = True"
| "is_call e = False"

fun is_sleep :: "event \<Rightarrow> bool" where
  "is_sleep (Sleep n) = True"
| "is_sleep e = False"

text \<open>Every sleep of a trace is directly followed by a call: none is last.\<close>

fun sleeps_before_calls :: "event list \<Rightarrow> bool" where
  "sleeps_before_calls [] = True"
| "sleeps_before_calls [e] = (\<not> is_sleep e)"
| "sleeps_before_calls (e # e' # es) =
     ((is_sleep e \<longrightarrow> is_call e') \<and> sleeps_before_calls (e' # es))"

section \<open>Splitting and joining text\<close>

text \<open>
  \<open>text.split()\<close>: the maximal runs of non-whitespace code points, in order. \<open>w\<close> is the
  word being read.
\<close>

fun words_from :: "ustr \<Rightarrow> ustr \<Rightarrow> ustr list" where
  "words_from w [] = (if w = [] then [] else [w])"
| "words_from w (c # cs) =
     (if is_space c then (if w = [] then words_from [] cs else w # words_from [] cs)
      else words_from (w @ [c]) cs)"

definition split_ws :: "ustr \<Rightarrow> ustr list" where
  "split_ws text = words_from [] text"

text \<open>\<open>p.split(sep)\<close> for a one-character separator: empty pieces are kept.\<close>

fun pieces_from :: "nat \<Rightarrow> ustr \<Rightarrow> ustr \<Rightarrow> ustr list" where
  "pieces_from sep w [] = [w]"
| "pieces_from sep w (c # cs) =
     (if c = sep then w # pieces_from sep [] cs else pieces_from sep (w @ [c]) cs)"

definition split_on :: "nat \<Rightarrow> ustr \<Rightarrow> ustr list" where
  "split_on sep text = pieces_from sep [] text"

text \<open>\<open>' '.join(text.split())\<close>, the first statement of each formatter.\<close>

definition collapse_ws :: "ustr \<Rightarrow> ustr" where
  "collapse_ws text = join [32] (split_ws text)"

section \<open>The formatters\<close>

text \<open>
  \<open>format_text\<close> (main.py), \<open>format_whisper_result\<close> and \<open>format_vosk_result\<close> hold the
  same loop, with the constants 120 and 5 in the first and 80 and 4 in the other two.
  The loop is modelled once, with the two constants as parameters, and its local
  variables as a record.
\<close>

record fmt_state =
  current_line :: "ustr list"
  current_length :: nat
  paragraphs :: "ustr list"
  current_paragraph :: "ustr list"

definition fmt_init :: fmt_state where
  "fmt_init = \<lparr>current_line = [], current_length = 0, paragraphs = [], current_paragraph = []\<rparr>"

text \<open>One iteration of \<open>for word in words\<close>.\<close>

definition fmt_step :: "nat \<Rightarrow> nat \<Rightarrow> fmt_state \<Rightarrow> ustr \<Rightarrow> fmt_state" where
  "fmt_step max_line_length para_lines s word =
     (let word_length = length word in
      if current_length s + word_length + 1 \<le> max_line_length
      then s\<lparr>current_line := current_line s @ [word],
              current_length := current_length s + word_length + 1\<rparr>
      else
        (let s1 = (if current_line s \<noteq> []
                   then s\<lparr>current_paragraph := current_paragraph s @ [join [32] (current_line s)]\<rparr>
                   else s);
             s2 = s1\<lparr>current_line := [word], current_length := word_length\<rparr>
         in if length (current_paragraph s2) \<ge> para_lines
            then s2\<lparr>paragraphs := paragraphs s2 @ [join [10] (current_paragraph s2)],
                     current_paragraph := []\<rparr>
            else s2))"

text \<open>The two statements after the loop: the last line and the last paragraph.\<close>

definition fmt_finish :: "fmt_state \<Rightarrow> ustr list" where
  "fmt_finish s =
     (let s1 = (if current_line s \<noteq> []
                then s\<lparr>current_paragraph := current_paragraph s @ [join [32] (current_line s)]\<rparr>
                else s)
      in if current_paragraph s1 \<noteq> []
         then paragraphs s1 @ [join [10] (current_paragraph s1)]
         else paragraphs s1)"

definition reflow :: "nat \<Rightarrow> nat \<Rightarrow> ustr list \<Rightarrow> ustr list" where
  "reflow max_line_length para_lines words =
     fmt_finish (foldl (fmt_step max_line_length para_lines) fmt_init words)"

text \<open>The string literals of the three formatters, as code points.\<close>

definition hdr_main :: ustr where
  "hdr_main = [1058, 1056, 1040, 1053, 1057, 1050, 1056, 1048, 1055, 1062, 1048, 1071, 32,
     1040, 1059, 1044, 1048, 1054, 10]"

definition hdr_whisper :: ustr where
  "hdr_whisper = [1058, 1056, 1040, 1053, 1057, 1050, 1056, 1048, 1055, 1062, 1048, 1071, 32,
     1040, 1059, 1044, 1048, 1054, 32, 40, 87, 72, 73, 83, 80, 69, 82, 41, 10, 10]"

definition hdr_vosk :: ustr where
  "hdr_vosk = [1058, 1056, 1040, 1053, 1057, 1050, 1056, 1048, 1055, 1062, 1048, 1071, 32,
     1040, 1059, 1044, 1048, 1054, 32, 40, 86, 79, 83, 75, 41, 10, 10]"

definition lbl_lines :: ustr where
  "lbl_lines = [1050, 1086, 1083, 1080, 1095, 1077, 1089, 1090, 1074, 1086, 32,
     1089, 1090, 1088, 1086, 1082, 58, 32]"

definition lbl_words :: ustr where
  "lbl_words = [1050, 1086, 1083, 1080, 1095, 1077, 1089, 1090, 1074, 1086, 32,
     1089, 1083, 1086, 1074, 58, 32]"

definition lbl_chars :: ustr where
  "lbl_chars = [1050, 1086, 1083, 1080, 1095, 1077, 1089, 1090, 1074, 1086, 32,
     1089, 1080, 1084, 1074, 1086, 1083, 1086, 1074, 58, 32]"

definition lbl_paras :: ustr where
  "lbl_paras = [1050, 1086, 1083, 1080, 1095, 1077, 1089, 1090, 1074, 1086, 32,
     1087, 1072, 1088, 1072, 1075, 1088, 1072, 1092, 1086, 1074, 58, 32]"

definition stats_hdr :: ustr where
  "stats_hdr = [10, 10, 1057, 1090, 1072, 1090, 1080, 1089, 1090, 1080, 1082, 1072, 58, 10]"

text \<open>
  \<open>format_text\<close> of main.py. The f-string of the line count holds a backslash inside its
  braces, which Python parses from version 3.12 on; the model is of the program as such a
  Python runs it. The statistics follow the body directly, with no newline in between.
\<close>

definition format_text :: "ustr \<Rightarrow> ustr" where
  "format_text text0 =
     (let text = join [32] (split_ws text0);
          words = split_ws text;
          paras = reflow 120 5 words
      in hdr_main @ join [10, 10] paras
         @ lbl_lines @ str_nat (sum_list (map (\<lambda>p. length (split_on 10 p)) paras)) @ [10]
         @ lbl_words @ str_nat (length words) @ [10]
         @ lbl_chars @ str_nat (length text) @ [10]
         @ lbl_paras @ str_nat (length paras) @ [10])"

text \<open>\<open>format_whisper_result\<close> of whisper_transcriber.py.\<close>

definition format_whisper_result :: "ustr \<Rightarrow> ustr" where
  "format_whisper_result text0 =
     (let text = join [32] (split_ws text0);
          words = split_ws text;
          paras = reflow 80 4 words
      in hdr_whisper @ join [10, 10] paras
         @ stats_hdr
         @ lbl_words @ str_nat (length words) @ [10]
         @ lbl_chars @ str_nat (length text) @ [10])"

text \<open>\<open>format_vosk_result\<close> of vosk_transcriber.py.\<close>

definition format_vosk_result :: "ustr \<Rightarrow> ustr" where
  "format_vosk_result text0 =
     (let text = join [32] (split_ws text0);
          words = split_ws text;
          paras = reflow 80 4 words
      in hdr_vosk @ join [10, 10] paras
         @ stats_hdr
         @ lbl_words @ str_nat (length words) @ [10]
         @ lbl_chars @ str_nat (length text) @ [10])"

section \<open>The chunked pipeline: \<open>audio_to_text\<close> (main.py)\<close>

text \<open>
  Everything outside the program that a run of \<open>audio_to_text\<close> depends on:
  \<^item> \<open>input_is_wav\<close>: \<open>audio_path.lower().endswith('.wav')\<close>;
  \<^item> \<open>input_is_temp\<close>: the given path itself ends with \<open>_temp.wav\<close>;
  \<^item> \<open>convert_ok\<close>: \<open>convert_audio_to_wav\<close> returns a path (it returns \<open>None\<close> when the
    input cannot be decoded or the export fails);
  \<^item> \<open>load_ok\<close>: \<open>AudioSegment.from_wav\<close> and \<open>sr.AudioFile\<close> read the WAV file
    without raising;
  \<^item> \<open>duration_ms\<close>: the value of \<open>duration * 1000\<close>, a float, taken as the rational
    number it is (Python compares an int with a float exactly);
  \<^item> \<open>save_ok k\<close>: \<open>save_audio_chunk\<close> returns a path for chunk \<open>k\<close> (on \<open>None\<close> the
    following \<open>sr.AudioFile(None)\<close> raises);
  \<^item> \<open>recognize k a\<close>: what \<open>recognize_google\<close> does at attempt \<open>a\<close> on chunk \<open>k\<close>;
  \<^item> \<open>write_ok\<close>: the output file can be opened and written;
  \<^item> \<open>remove_ok\<close>: \<open>os.remove\<close> of the temporary WAV succeeds.
\<close>

record env =
  input_is_wav :: bool
  input_is_temp :: bool
  convert_ok :: bool
  load_ok :: bool
  duration_ms :: rat
  save_ok :: "nat \<Rightarrow> bool"
  recognize :: "nat \<Rightarrow> nat \<Rightarrow> outcome"
  write_ok :: bool
  remove_ok :: bool

definition chunk_duration :: nat where
  "chunk_duration = 30 * 1000"

definition ph_pre :: ustr where
  "ph_pre = [91, 1053, 1077, 32, 1091, 1076, 1072, 1083, 1086, 1089, 1100, 32, 1088, 1072,
     1089, 1087, 1086, 1079, 1085, 1072, 1090, 1100, 32, 1095, 1072, 1089, 1090, 1100, 32]"

text \<open>The f-string appended for a chunk that was not recognized.\<close>

definition placeholder :: "nat \<Rightarrow> ustr" where
  "placeholder current_chunk = ph_pre @ str_nat current_chunk @ [93]"

text \<open>
  The body of the \<open>while\<close> loop for one chunk: save the chunk, run the attempts, append
  the text or the placeholder, sleep 0.1 s. The result is the events and the string
  appended to \<open>full_text\<close>, or \<open>None\<close> when an exception leaves the loop.
\<close>

definition process_chunk :: "env \<Rightarrow> nat \<Rightarrow> event list \<times> ustr option" where
  "process_chunk e current_chunk =
     (if save_ok e current_chunk then
        (case recognize_chunk (recognize e) current_chunk of
           (ev, Success chunk_text) \<Rightarrow> (Export current_chunk # ev @ [Sleep 100], Some chunk_text)
         | (ev, NoSuccess) \<Rightarrow>
             (Export current_chunk # ev @ [Sleep 100], Some (placeholder current_chunk))
         | (ev, Raised) \<Rightarrow> (Export current_chunk # ev, None))
      else ([], None))"

text \<open>\<open>while offset < duration * 1000\<close>, with \<open>offset += chunk_duration\<close> at the end.\<close>

function chunk_loop :: "env \<Rightarrow> nat \<Rightarrow> ustr list \<Rightarrow> event list \<times> ustr list option" where
  "chunk_loop e offset full_text =
     (if of_nat offset < duration_ms e then
        (case process_chunk e (offset div chunk_duration + 1) of
           (ev, None) \<Rightarrow> (ev, None)
         | (ev, Some t) \<Rightarrow>
             (let (ev', r) = chunk_loop e (offset + chunk_duration) (full_text @ [t])
              in (ev @ ev', r)))
      else ([], Some full_text))"
  by pat_completeness auto
termination
proof (relation "measure (\<lambda>(e, offset, full_text). nat \<lceil>duration_ms e\<rceil> - offset)")
  show "wf (measure (\<lambda>(e, offset, full_text). nat \<lceil>duration_ms e\<rceil> - offset))"
    by simp
next
  fix e :: env and offset :: nat and full_text :: "ustr list" and x ev y t
  assume lt: "of_nat offset < duration_ms e"
  have "of_nat offset < (of_int \<lceil>duration_ms e\<rceil> :: rat)"
    using lt le_of_int_ceiling [of "duration_ms e"] by linarith
  then have "int offset < \<lceil>duration_ms e\<rceil>"
    by (metis of_int_less_iff of_int_of_nat_eq)
  then have "offset < nat \<lceil>duration_ms e\<rceil>"
    by linarith
  then show "((e, offset + chunk_duration, full_text @ [t]), (e, offset, full_text))
      \<in> measure (\<lambda>(e, offset, full_text). nat \<lceil>duration_ms e\<rceil> - offset)"
    by (simp add: chunk_duration_def)
qed

declare chunk_loop.simps [simp del]

text \<open>
  \<open>audio_to_text\<close>: the returned boolean and the events of the run. Every exception
  inside is caught by the outer handler, which returns \<open>False\<close>.
\<close>

definition audio_to_text :: "env \<Rightarrow> bool \<times> event list" where
  "audio_to_text e =
     (if \<not> input_is_wav e \<and> \<not> convert_ok e then (False, [])
      else
        (let pre = (if input_is_wav e then [] else [Convert]) in
         if \<not> load_ok e then (False, pre)
         else
           (case chunk_loop e 0 [] of
              (ev, None) \<Rightarrow> (False, pre @ ev)
            | (ev, Some full_text) \<Rightarrow>
                (let text = join [32] full_text;
                     formatted_text = format_text text
                 in if \<not> write_ok e then (False, pre @ ev)
                    else if \<not> input_is_wav e \<or> input_is_temp e
                    then (if remove_ok e
                          then (True, pre @ ev @ [WriteOutput formatted_text, RemoveTemp])
                          else (False, pre @ ev @ [WriteOutput formatted_text]))
                    else (True, pre @ ev @ [WriteOutput formatted_text])))))"

text \<open>The number of passes of the loop, and what a completed pass appends for chunk \<open>k\<close>.\<close>

definition n_chunks :: "rat \<Rightarrow> nat" where
  "n_chunks d = nat \<lceil>d / of_nat chunk_duration\<rceil>"

definition segment_text :: "(nat \<Rightarrow> nat \<Rightarrow> outcome) \<Rightarrow> nat \<Rightarrow> ustr" where
  "segment_text rec k =
     (case snd (recognize_chunk rec k) of Success t \<Rightarrow> t | _ \<Rightarrow> placeholder k)"

fun is_export :: "event \<Rightarrow> bool" where
  "is_export (Export k) = True"
| "is_export e = False"

fun is_write :: "event \<Rightarrow> bool" where
  "is_write (WriteOutput d) = True"
| "is_write e = False"

section \<open>The segmenters: \<open>split_audio_for_whisper\<close> and \<open>split_audio_for_vosk\<close>\<close>

text \<open>
  The two functions differ in the default segment length (600 and 300 seconds), the
  directory of the segment files and the export parameters. A path is the given one or
  that of segment \<open>i\<close> of the given one in a segments directory.
\<close>

datatype seg_dir = WhisperSegments | VoskSegments

datatype path = AudioPath ustr | SegmentPath seg_dir ustr nat

datatype error = DecodeError | OSError | ZeroDivisionError

text \<open>
  What the splitter depends on: \<open>from_file p\<close> is \<open>len(audio)\<close> in milliseconds, or
  \<open>None\<close> when \<open>AudioSegment.from_file\<close> raises; \<open>makedirs_ok\<close> and \<open>export_ok i\<close> say
  whether \<open>os.makedirs\<close> and the export of segment \<open>i\<close> succeed.
\<close>

record audio_env =
  from_file :: "ustr \<Rightarrow> nat option"
  makedirs_ok :: bool
  export_ok :: "nat \<Rightarrow> bool"

text \<open>\<open>audio[start:end]\<close> of pydub clamps both bounds to the length.\<close>

definition slice :: "nat \<Rightarrow> nat \<Rightarrow> nat \<Rightarrow> nat \<times> nat" where
  "slice len start_ms end_ms = (min start_ms len, min end_ms len)"

text \<open>
  \<open>for i in range(total_segments)\<close>: the segment paths so far and the files written so
  far, each with the window of the audio it holds. An export that raises leaves the loop;
  the files written before stay.
\<close>

fun split_loop :: "audio_env \<Rightarrow> seg_dir \<Rightarrow> ustr \<Rightarrow> nat \<Rightarrow> nat \<Rightarrow> nat list \<Rightarrow> path list
    \<Rightarrow> (path \<times> nat \<times> nat) list \<Rightarrow> (error + path list) \<times> (path \<times> nat \<times> nat) list" where
  "split_loop w d p len L [] segments files = (Inr segments, files)"
| "split_loop w d p len L (i # rest) segments files =
     (let start_ms = i * L * 1000;
          end_ms = min ((i + 1) * L * 1000) len;
          segment = slice len start_ms end_ms;
          segment_path = SegmentPath d p (i + 1)
      in if export_ok w (i + 1)
         then split_loop w d p len L rest (segments @ [segment_path]) (files @ [(segment_path, segment)])
         else (Inl OSError, files))"

text \<open>
  The body of the \<open>try\<close>. \<open>len(audio) / 1000\<close> and its quotient by the segment length are
  floats in the source; they are taken exactly here, so \<open>total_duration_sec <= L\<close> is
  \<open>len \<le> 1000 * L\<close> and \<open>int(total_duration_sec / L)\<close> is \<open>len div (1000 * L)\<close>.
\<close>

definition split_body :: "audio_env \<Rightarrow> seg_dir \<Rightarrow> ustr \<Rightarrow> nat
    \<Rightarrow> (error + path list) \<times> (path \<times> nat \<times> nat) list" where
  "split_body w d p L =
     (case from_file w p of
        None \<Rightarrow> (Inl DecodeError, [])
      | Some len \<Rightarrow>
          if len \<le> 1000 * L then (Inr [AudioPath p], [])
          else if \<not> makedirs_ok w then (Inl OSError, [])
          else if L = 0 then (Inl ZeroDivisionError, [])
          else (let total_segments = len div (1000 * L) + 1
                in split_loop w d p len L [0..<total_segments] [] []))"

text \<open>The \<open>except Exception\<close> handler returns the given path alone.\<close>

definition split_audio :: "audio_env \<Rightarrow> seg_dir \<Rightarrow> ustr \<Rightarrow> nat \<Rightarrow> path list \<times> (path \<times> nat \<times> nat) list" where
  "split_audio w d p L =
     (case split_body w d p L of
        (Inl err, files) \<Rightarrow> ([AudioPath p], files)
      | (Inr segments, files) \<Rightarrow> (segments, files))"

definition split_audio_for_whisper :: "audio_env \<Rightarrow> ustr \<Rightarrow> nat \<Rightarrow> path list \<times> (path \<times> nat \<times> nat) list" where
  "split_audio_for_whisper w audio_path segment_length_sec =
     split_audio w WhisperSegments audio_path segment_length_sec"

definition split_audio_for_vosk :: "audio_env \<Rightarrow> ustr \<Rightarrow> nat \<Rightarrow> path list \<times> (path \<times> nat \<times> nat) list" where
  "split_audio_for_vosk w audio_path segment_length_sec =
     split_audio w VoskSegments audio_path segment_length_sec"

section \<open>Sample inputs\<close>

text \<open>
  Concrete environments on which the properties below are evaluated: an audio of a given
  length whose files can all be written, one whose export of segment \<open>k\<close> fails, one that
  cannot be decoded; a WAV input of a given duration with a given backend, an input whose
  conversion fails, and a backend that recognizes chunk \<open>k\<close> as the letter number \<open>k\<close>
  except chunk 2, for which it never detects speech.
\<close>

definition readable_audio :: "nat \<Rightarrow> audio_env" where
  "readable_audio len = \<lparr>from_file = (\<lambda>p. Some len), makedirs_ok = True, export_ok = (\<lambda>i. True)\<rparr>"

definition export_fails_at :: "nat \<Rightarrow> nat \<Rightarrow> audio_env" where
  "export_fails_at len k =
     \<lparr>from_file = (\<lambda>p. Some len), makedirs_ok = True, export_ok = (\<lambda>i. i \<noteq> k)\<rparr>"

definition unreadable_audio :: audio_env where
  "unreadable_audio = \<lparr>from_file = (\<lambda>p. None), makedirs_ok = True, export_ok = (\<lambda>i. True)\<rparr>"

definition sample_env :: "rat \<Rightarrow> (nat \<Rightarrow> nat \<Rightarrow> outcome) \<Rightarrow> env" where
  "sample_env d rec =
     \<lparr>input_is_wav = True, input_is_temp = False, convert_ok = True, load_ok = True,
      duration_ms = d, save_ok = (\<lambda>k. True), recognize = rec, write_ok = True,
      remove_ok = True\<rparr>"

definition undecodable_env :: env where
  "undecodable_env =
     \<lparr>input_is_wav = False, input_is_temp = False, convert_ok = False, load_ok = False,
      duration_ms = 75000, save_ok = (\<lambda>k. True), recognize = (\<lambda>k a. Recognized [97]),
      write_ok = True, remove_ok = True\<rparr>"

definition abc_backend :: "nat \<Rightarrow> nat \<Rightarrow> outcome" where
  "abc_backend k a = (if k = 2 then UnknownValueError else Recognized [96 + k])"

section \<open>The layout behind the re-flowed text\<close>

text \<open>
  The text as the formatter's loop lays it out, before the lines and paragraphs are
  joined into strings: a line is a list of words, a paragraph a list of lines. This
  second state only serves the proofs about \<open>reflow\<close>.
\<close>

record lay_state =
  l_line :: "ustr list"
  l_length :: nat
  l_paras :: "ustr list list list"
  l_para :: "ustr list list"

definition lay_init :: lay_state where
  "lay_init = \<lparr>l_line = [], l_length = 0, l_paras = [], l_para = []\<rparr>"

definition lay_step :: "nat \<Rightarrow> nat \<Rightarrow> lay_state \<Rightarrow> ustr \<Rightarrow> lay_state" where
  "lay_step max_line_length para_lines s word =
     (if l_length s + length word + 1 \<le> max_line_length
      then s\<lparr>l_line := l_line s @ [word], l_length := l_length s + length word + 1\<rparr>
      else
        (let para = (if l_line s \<noteq> [] then l_para s @ [l_line s] else l_para s)
         in if length para \<ge> para_lines
            then s\<lparr>l_line := [word], l_length := length word,
                   l_paras := l_paras s @ [para], l_para := []\<rparr>
            else s\<lparr>l_line := [word], l_length := length word, l_para := para\<rparr>))"

definition lay_finish :: "lay_state \<Rightarrow> ustr list list list" where
  "lay_finish s =
     (let para = (if l_line s \<noteq> [] then l_para s @ [l_line s] else l_para s)
      in if para \<noteq> [] then l_paras s @ [para] else l_paras s)"

definition layout :: "nat \<Rightarrow> nat \<Rightarrow> ustr list \<Rightarrow> ustr list list list" where
  "layout max_line_length para_lines words =
     lay_finish (foldl (lay_step max_line_length para_lines) lay_init words)"

definition render_para :: "ustr list list \<Rightarrow> ustr" where
  "render_para lines = join [10] (map (join [32]) lines)"

definition render_state :: "lay_state \<Rightarrow> fmt_state" where
  "render_state s =
     \<lparr>current_line = l_line s, current_length = l_length s,
      paragraphs = map render_para (l_paras s),
      current_paragraph = map (join [32]) (l_para s)\<rparr>"

text \<open>What holds of the layout between two passes of the loop.\<close>

definition lay_inv :: "nat \<Rightarrow> nat \<Rightarrow> lay_state \<Rightarrow> bool" where
  "lay_inv m c s =
     ((\<forall>p \<in> set (l_paras s). length p = c) \<and>
      length (l_para s) < c \<and>
      (\<forall>line \<in> set (concat (l_paras s)) \<union> set (l_para s).
         line \<noteq> [] \<and> (length (join [32] line) \<le> m \<or> length line = 1)) \<and>
      length (join [32] (l_line s)) \<le> l_length s \<and>
      (l_length s \<le> m \<or> length (l_line s) = 1))"

definition lay_words :: "lay_state \<Rightarrow> ustr list" where
  "lay_words s = concat (concat (l_paras s)) @ concat (l_para s) @ l_line s"

text \<open>A word as \<open>split()\<close> yields it: not empty and free of whitespace.\<close>

definition is_word :: "ustr \<Rightarrow> bool" where
  "is_word w = (w \<noteq> [] \<and> list_all (\<lambda>c. \<not> is_space c) w)"

text \<open>The list \<open>paragraphs\<close> that each formatter joins into the body of its document.\<close>

definition body_main :: "ustr \<Rightarrow> ustr list" where
  "body_main text0 = reflow 120 5 (split_ws (collapse_ws text0))"

definition body_local :: "ustr \<Rightarrow> ustr list" where
  "body_local text0 = reflow 80 4 (split_ws (collapse_ws text0))"

section \<open>Properties of the retry loop\<close>

lemma range_max_retries: "[0..<max_retries] = [0, 1, 2, 3, 4]"
  by (simp add: max_retries_def upt_rec)

lemma attempts_all_transient:
  "(\<forall>a \<in> set as. transient (rec k a)) \<Longrightarrow>
   attempts rec k as =
     (concat (map (\<lambda>a. if a < max_retries - 1 then [Call k a, Sleep 5000] else [Call k a]) as),
      NoSuccess)"
  by (induction as) (auto simp: transient_def)

lemma attempts_calls_le: "length (filter is_call (fst (attempts rec k as))) \<le> length as"
  by (induction as) (auto split: outcome.splits prod.splits)

lemma attempts_sleep_5000:
  "e \<in> set (fst (attempts rec k as)) \<Longrightarrow> is_sleep e \<Longrightarrow> e = Sleep 5000"
  by (induction as) (auto split: outcome.splits prod.splits if_splits)

lemma attempts_starts_with_call:
  "as \<noteq> [] \<Longrightarrow> \<exists>es. fst (attempts rec k as) = Call k (hd as) # es"
  by (cases as) (auto split: outcome.splits prod.splits)

lemma attempts_sleeps_before_calls:
  "as = [] \<or> max_retries - 1 \<le> last as \<Longrightarrow> sleeps_before_calls (fst (attempts rec k as))"
proof (induction as)
  case Nil
  then show ?case by simp
next
  case (Cons a as)
  show ?case
  proof (cases as)
    case Nil
    with Cons.prems show ?thesis
      by (auto split: outcome.splits)
  next
    case (Cons b bs)
    then have ne: "as \<noteq> []" by simp
    with Cons.prems have "max_retries - 1 \<le> last as" by simp
    with Cons.IH have ih: "sleeps_before_calls (fst (attempts rec k as))" by simp
    from ne attempts_starts_with_call [of as rec k]
    obtain es where es: "fst (attempts rec k as) = Call k (hd as) # es" by blast
    obtain ev r where evr: "attempts rec k as = (ev, r)" by (cases "attempts rec k as")
    with es ih have ev: "ev = Call k (hd as) # es" "sleeps_before_calls (Call k (hd as) # es)"
      by simp_all
    show ?thesis
      by (cases "rec k a") (simp_all add: evr ev)
  qed
qed

text \<open>
  Claim C2. For every chunk the retry loop calls the backend at most \<open>max_retries = 5\<close>
  times, and every sleep it makes lasts 5 seconds. When every attempt fails with
  \<open>UnknownValueError\<close> or \<open>RequestError\<close> it makes exactly the five calls, with a sleep of
  5 seconds before each retry; when the first attempt returns a text it makes that one
  call and returns the text.
\<close>

theorem retry_call_bound:
  "length (filter is_call (fst (recognize_chunk rec k))) \<le> max_retries \<and> max_retries = 5 \<and>
   (\<forall>e \<in> set (fst (recognize_chunk rec k)). is_sleep e \<longrightarrow> e = Sleep 5000) \<and>
   ((\<forall>a < max_retries. transient (rec k a)) \<longrightarrow>
      recognize_chunk rec k =
        ([Call k 0, Sleep 5000, Call k 1, Sleep 5000, Call k 2, Sleep 5000, Call k 3, Sleep 5000,
          Call k 4], NoSuccess)) \<and>
   (rec k 0 = Recognized t \<longrightarrow> recognize_chunk rec k = ([Call k 0], Success t))"
proof -
  have bound: "length (filter is_call (fst (recognize_chunk rec k))) \<le> max_retries"
    using attempts_calls_le [of rec k "[0..<max_retries]"] by (simp add: recognize_chunk_def)
  have sleeps: "\<forall>e \<in> set (fst (recognize_chunk rec k)). is_sleep e \<longrightarrow> e = Sleep 5000"
    using attempts_sleep_5000 [of _ rec k "[0..<max_retries]"] by (auto simp: recognize_chunk_def)
  have stuck: "recognize_chunk rec k =
        ([Call k 0, Sleep 5000, Call k 1, Sleep 5000, Call k 2, Sleep 5000, Call k 3, Sleep 5000,
          Call k 4], NoSuccess)" if "\<forall>a < max_retries. transient (rec k a)"
  proof -
    from that have "\<forall>a \<in> set [0..<max_retries]. transient (rec k a)" by simp
    with attempts_all_transient [of "[0..<max_retries]" rec k]
    have "attempts rec k [0..<max_retries] =
      (concat (map (\<lambda>a. if a < max_retries - 1 then [Call k a, Sleep 5000] else [Call k a])
         [0..<max_retries]), NoSuccess)" by blast
    then show ?thesis
      unfolding recognize_chunk_def range_max_retries by (simp add: max_retries_def)
  qed
  have first: "recognize_chunk rec k = ([Call k 0], Success t)" if "rec k 0 = Recognized t"
    using that by (simp add: recognize_chunk_def range_max_retries)
  have "max_retries = 5" by (simp add: max_retries_def)
  with bound sleeps stuck first show ?thesis
    by blast
qed

theorem retry_call_bound_witness:
  "recognize_chunk (\<lambda>k a. if a = 3 then RequestError else UnknownValueError) 7 =
     ([Call 7 0, Sleep 5000, Call 7 1, Sleep 5000, Call 7 2, Sleep 5000, Call 7 3, Sleep 5000,
       Call 7 4], NoSuccess) \<and>
   recognize_chunk (\<lambda>k a. Recognized [97]) 7 = ([Call 7 0], Success [97])"
proof -
  let ?stuck = "\<lambda>(k::nat) (a::nat). if a = 3 then RequestError else UnknownValueError"
  let ?good = "\<lambda>(k::nat) (a::nat). Recognized [97]"
  have h1: "\<forall>a < max_retries. transient (?stuck 7 a)"
    by (simp add: transient_def)
  have h2: "?good 7 0 = Recognized [97]"
    by simp
  from h1 retry_call_bound [of ?stuck 7 "[]"]
  have "recognize_chunk ?stuck 7 =
     ([Call 7 0, Sleep 5000, Call 7 1, Sleep 5000, Call 7 2, Sleep 5000, Call 7 3, Sleep 5000,
       Call 7 4], NoSuccess)"
    by blast
  moreover from h2 retry_call_bound [of ?good 7 "[97]"]
  have "recognize_chunk ?good 7 = ([Call 7 0], Success [97])"
    by blast
  ultimately show ?thesis by blast
qed

text \<open>
  Claim C10. In the retry loop every sleep is directly followed by another attempt, so
  none comes after the last attempt; for a chunk whose every attempt fails transiently
  there are exactly \<open>max_retries - 1 = 4\<close> sleeps and the last event is a call.
\<close>

theorem no_sleep_after_last_attempt:
  "sleeps_before_calls (fst (recognize_chunk rec k)) \<and>
   ((\<forall>a < max_retries. transient (rec k a)) \<longrightarrow>
      length (filter is_sleep (fst (recognize_chunk rec k))) = max_retries - 1 \<and>
      max_retries - 1 = 4 \<and>
      is_call (last (fst (recognize_chunk rec k))))"
proof -
  have "sleeps_before_calls (fst (recognize_chunk rec k))"
    unfolding recognize_chunk_def
    by (rule attempts_sleeps_before_calls) (simp add: range_max_retries, simp add: max_retries_def)
  moreover have "length (filter is_sleep (fst (recognize_chunk rec k))) = max_retries - 1 \<and>
      max_retries - 1 = 4 \<and> is_call (last (fst (recognize_chunk rec k)))"
    if "\<forall>a < max_retries. transient (rec k a)"
  proof -
    from that have "\<forall>a \<in> set [0..<max_retries]. transient (rec k a)" by simp
    with attempts_all_transient [of "[0..<max_retries]" rec k]
    have "attempts rec k [0..<max_retries] =
      (concat (map (\<lambda>a. if a < max_retries - 1 then [Call k a, Sleep 5000] else [Call k a])
         [0..<max_retries]), NoSuccess)" by blast
    then show ?thesis
      unfolding recognize_chunk_def range_max_retries by (simp add: max_retries_def)
  qed
  ultimately show ?thesis by blast
qed

theorem no_sleep_after_last_attempt_witness:
  "sleeps_before_calls
     (fst (recognize_chunk (\<lambda>k a. if a = 1 then RequestError else UnknownValueError) 2)) \<and>
   length (filter is_sleep
     (fst (recognize_chunk (\<lambda>k a. if a = 1 then RequestError else UnknownValueError) 2))) = 4 \<and>
   is_call (last
     (fst (recognize_chunk (\<lambda>k a. if a = 1 then RequestError else UnknownValueError) 2)))"
proof -
  let ?stuck = "\<lambda>(k::nat) (a::nat). if a = 1 then RequestError else UnknownValueError"
  have h: "\<forall>a < max_retries. transient (?stuck 2 a)"
    by (simp add: transient_def)
  from h no_sleep_after_last_attempt [of ?stuck 2] show ?thesis
    by metis
qed

section \<open>Properties of the segmenters\<close>

lemma split_loop_export_fails:
  "\<exists>i \<in> set is. \<not> export_ok w (i + 1) \<Longrightarrow>
   \<exists>files'. split_loop w d p len L is segments files = (Inl OSError, files')"
proof (induction "is" arbitrary: segments files)
  case Nil
  then show ?case by simp
next
  case (Cons i rest)
  show ?case
  proof (cases "export_ok w (i + 1)")
    case True
    with Cons.prems have "\<exists>i \<in> set rest. \<not> export_ok w (i + 1)" by auto
    from Cons.IH [OF this] True show ?thesis by (simp add: Let_def)
  next
    case False
    then show ?thesis by (simp add: Let_def)
  qed
qed

lemma split_loop_all_exported:
  "\<forall>i \<in> set is. export_ok w (i + 1) \<Longrightarrow>
   split_loop w d p len L is segments files =
     (Inr (segments @ map (\<lambda>i. SegmentPath d p (i + 1)) is),
      files @ map (\<lambda>i. (SegmentPath d p (i + 1),
                         slice len (i * L * 1000) (min ((i + 1) * L * 1000) len))) is)"
  by (induction "is" arbitrary: segments files) (auto simp: Let_def)

lemma split_body_decode_error:
  "from_file w p = None \<Longrightarrow> split_body w d p L = (Inl DecodeError, [])"
  by (simp add: split_body_def)

lemma split_body_long:
  assumes "from_file w p = Some len" and "1000 * L < len"
  shows "split_body w d p L =
     (if \<not> makedirs_ok w then (Inl OSError, [])
      else if L = 0 then (Inl ZeroDivisionError, [])
      else split_loop w d p len L [0..<len div (1000 * L) + 1] [] [])"
proof -
  from assms(2) have "\<not> len \<le> 1000 * L" by simp
  with assms(1) show ?thesis by (simp add: split_body_def)
qed

lemma split_audio_error:
  assumes "from_file w p = None \<or>
     (\<exists>len. from_file w p = Some len \<and> 1000 * L < len \<and>
        (\<not> makedirs_ok w \<or> L = 0 \<or> (\<exists>i \<le> len div (1000 * L). \<not> export_ok w (i + 1))))"
  shows "fst (split_audio w d p L) = [AudioPath p]"
proof -
  have "\<exists>err files. split_body w d p L = (Inl err, files)"
  proof (cases "from_file w p")
    case None
    then show ?thesis by (simp add: split_body_decode_error)
  next
    case (Some len)
    with assms have long: "1000 * L < len"
      and bad: "\<not> makedirs_ok w \<or> L = 0 \<or> (\<exists>i \<le> len div (1000 * L). \<not> export_ok w (i + 1))"
      by simp_all
    note body = split_body_long [OF Some long, of d]
    show ?thesis
    proof (cases "makedirs_ok w \<and> L \<noteq> 0")
      case False
      then show ?thesis unfolding body by auto
    next
      case True
      with bad obtain i where i: "i \<le> len div (1000 * L)" "\<not> export_ok w (i + 1)" by blast
      from i(1) have "i \<in> set [0..<len div (1000 * L) + 1]"
        unfolding set_upt atLeastLessThan_iff by (metis le0 le_imp_less_Suc Suc_eq_plus1)
      with i have ex: "\<exists>i \<in> set [0..<len div (1000 * L) + 1]. \<not> export_ok w (i + 1)"
        by blast
      obtain files' where
        "split_loop w d p len L [0..<len div (1000 * L) + 1] [] [] = (Inl OSError, files')"
        using split_loop_export_fails [OF ex] by blast
      with True show ?thesis unfolding body by simp
    qed
  qed
  then obtain err files where "split_body w d p L = (Inl err, files)" by blast
  then show ?thesis by (simp add: split_audio_def)
qed

text \<open>
  Claim C9. The splitting operation never raises to its caller: whenever loading the
  audio fails, or the audio is longer than one segment and creating the segments
  directory, the division by the segment length or the export of some segment fails,
  \<open>split_audio_for_whisper\<close> and \<open>split_audio_for_vosk\<close> return the list holding the
  given path alone.
\<close>

theorem split_audio_never_raises:
  assumes "from_file w p = None \<or>
     (\<exists>len. from_file w p = Some len \<and> 1000 * L < len \<and>
        (\<not> makedirs_ok w \<or> L = 0 \<or> (\<exists>i \<le> len div (1000 * L). \<not> export_ok w (i + 1))))"
  shows "fst (split_audio_for_whisper w p L) = [AudioPath p] \<and>
         fst (split_audio_for_vosk w p L) = [AudioPath p]"
  using split_audio_error [OF assms]
  by (simp add: split_audio_for_whisper_def split_audio_for_vosk_def)

theorem split_audio_never_raises_witness:
  "fst (split_audio_for_whisper unreadable_audio [97] 600) = [AudioPath [97]] \<and>
   fst (split_audio_for_vosk unreadable_audio [97] 300) = [AudioPath [97]] \<and>
   fst (split_audio_for_whisper (export_fails_at 1500000 2) [97] 600) = [AudioPath [97]] \<and>
   fst (split_audio_for_vosk (export_fails_at 1500000 2) [97] 600) = [AudioPath [97]]"
proof -
  have h1: "from_file unreadable_audio [97] = None"
    by (simp add: unreadable_audio_def)
  have "from_file (export_fails_at 1500000 2) [97] = Some 1500000 \<and> 1000 * 600 < (1500000::nat) \<and>
      (1::nat) \<le> 1500000 div (1000 * 600) \<and> \<not> export_ok (export_fails_at 1500000 2) (1 + 1)"
    by (simp add: export_fails_at_def)
  then have h2: "from_file (export_fails_at 1500000 2) [97] = None \<or>
     (\<exists>len. from_file (export_fails_at 1500000 2) [97] = Some len \<and> 1000 * 600 < len \<and>
        (\<not> makedirs_ok (export_fails_at 1500000 2) \<or> (600::nat) = 0 \<or>
         (\<exists>i \<le> len div (1000 * 600). \<not> export_ok (export_fails_at 1500000 2) (i + 1))))"
    by blast
  from h1 have a: "fst (split_audio_for_whisper unreadable_audio [97] 600) = [AudioPath [97]]"
    using split_audio_never_raises [of unreadable_audio "[97]" 600] by blast
  from h1 have b: "fst (split_audio_for_vosk unreadable_audio [97] 300) = [AudioPath [97]]"
    using split_audio_never_raises [of unreadable_audio "[97]" 300] by blast
  from split_audio_never_raises [OF h2] a b show ?thesis
    by blast
qed

lemma split_audio_all_exported:
  assumes "from_file w p = Some len" and "1000 * L < len" and "makedirs_ok w" and "0 < L"
    and "\<forall>i. export_ok w i"
  shows "split_audio w d p L =
     (map (\<lambda>i. SegmentPath d p (i + 1)) [0..<len div (1000 * L) + 1],
      map (\<lambda>i. (SegmentPath d p (i + 1), slice len (i * L * 1000) (min ((i + 1) * L * 1000) len)))
        [0..<len div (1000 * L) + 1])"
proof -
  from assms(5) have "\<forall>i \<in> set [0..<len div (1000 * L) + 1]. export_ok w (i + 1)"
    by blast
  from split_loop_all_exported [OF this, of d p len L "[]" "[]"] assms(3,4)
  show ?thesis
    unfolding split_audio_def split_body_long [OF assms(1,2)] by simp
qed

lemma split_audio_segment_count:
  assumes "from_file w p = Some len" and "1000 * L < len" and "makedirs_ok w" and "0 < L"
    and "\<forall>i. export_ok w i"
  shows "length (fst (split_audio w d p L)) = len div (1000 * L) + 1"
  unfolding split_audio_all_exported [OF assms] by simp

text \<open>
  Claim C6, as amended. In \<open>split_audio_for_whisper\<close> and \<open>split_audio_for_vosk\<close>, an
  audio whose duration is at most the segment length is returned as the single given
  path and no segment file is written. (The loop of \<open>audio_to_text\<close> in main.py has no
  such pass-through: it exports every chunk, also the only chunk of a short audio.)
\<close>

theorem short_audio_passes_through:
  assumes "from_file w p = Some len" and "len \<le> 1000 * L"
  shows "split_audio_for_whisper w p L = ([AudioPath p], []) \<and>
         split_audio_for_vosk w p L = ([AudioPath p], [])"
  using assms
  by (simp add: split_audio_for_whisper_def split_audio_for_vosk_def split_audio_def split_body_def)

theorem short_audio_passes_through_witness:
  "split_audio_for_whisper (readable_audio 600000) [97] 600 = ([AudioPath [97]], []) \<and>
   split_audio_for_vosk (readable_audio 600000) [97] 600 = ([AudioPath [97]], [])"
proof -
  have h1: "from_file (readable_audio 600000) [97] = Some 600000"
    by (simp add: readable_audio_def)
  have h2: "(600000::nat) \<le> 1000 * 600"
    by simp
  from short_audio_passes_through [OF h1 h2] show ?thesis .
qed

lemma range3: "[0..<3] = [0, 1, 2]"
  by (simp add: upt_rec)

text \<open>
  Claim C3 at an audio of exactly 1200 seconds with segments of 600 seconds: the
  segmenter computes \<open>int(1200 / 600) + 1 = 3\<close> segments, not \<open>ceil(1200 / 600) = 2\<close>, and
  the third is the empty window from 1200000 ms to 1200000 ms.
\<close>

theorem exact_multiple_gives_empty_segment:
  "split_audio_for_whisper (readable_audio 1200000) [97] 600 =
     ([SegmentPath WhisperSegments [97] 1, SegmentPath WhisperSegments [97] 2,
       SegmentPath WhisperSegments [97] 3],
      [(SegmentPath WhisperSegments [97] 1, (0, 600000)),
       (SegmentPath WhisperSegments [97] 2, (600000, 1200000)),
       (SegmentPath WhisperSegments [97] 3, (1200000, 1200000))])"
  by (simp add: split_audio_for_whisper_def split_audio_def split_body_def readable_audio_def
      range3 slice_def Let_def)

section \<open>Properties of the chunked pipeline\<close>


lemma in_loop_iff: "of_nat (j * chunk_duration) < d \<longleftrightarrow> j < n_chunks d"
proof -
  have pos: "(0::rat) < of_nat chunk_duration"
    by (simp add: chunk_duration_def)
  have "of_nat (j * chunk_duration) < d \<longleftrightarrow> (of_nat j :: rat) < d / of_nat chunk_duration"
    using pos by (simp add: pos_less_divide_eq)
  also have "\<dots> \<longleftrightarrow> (of_int (int j) :: rat) < d / of_nat chunk_duration"
    by simp
  also have "\<dots> \<longleftrightarrow> int j < \<lceil>d / of_nat chunk_duration\<rceil>"
    by (simp only: less_ceiling_iff)
  also have "\<dots> \<longleftrightarrow> j < n_chunks d"
    by (simp add: n_chunks_def zless_nat_eq_int_zless)
  finally show ?thesis .
qed

lemma process_chunk_Some:
  assumes "process_chunk e k = (ev, Some t)"
  shows "t = segment_text (recognize e) k" and "save_ok e k"
    and "snd (recognize_chunk (recognize e) k) \<noteq> Raised"
    and "ev = Export k # fst (recognize_chunk (recognize e) k) @ [Sleep 100]"
  using assms
  by (auto simp: process_chunk_def segment_text_def split: if_splits prod.splits attempt_result.splits)

lemma attempts_events: "x \<in> set (fst (attempts rec k as)) \<Longrightarrow> is_call x \<or> is_sleep x"
  by (induction as) (auto split: outcome.splits prod.splits if_splits)

lemma recognize_chunk_first_call: "\<exists>es. fst (recognize_chunk rec k) = Call k 0 # es"
  using attempts_starts_with_call [of "[0..<max_retries]" rec k]
  by (simp add: recognize_chunk_def range_max_retries)

lemma process_chunk_events:
  "x \<in> set (fst (process_chunk e k)) \<Longrightarrow> \<not> is_write x"
proof -
  assume x: "x \<in> set (fst (process_chunk e k))"
  have "is_export x \<or> is_call x \<or> is_sleep x"
  proof (cases "save_ok e k")
    case False
    with x show ?thesis by (simp add: process_chunk_def)
  next
    case True
    obtain ev r where evr: "recognize_chunk (recognize e) k = (ev, r)"
      by (cases "recognize_chunk (recognize e) k")
    with True x have "x = Export k \<or> x \<in> set ev \<or> x = Sleep 100"
      by (cases r) (auto simp: process_chunk_def)
    moreover have "is_call y \<or> is_sleep y" if "y \<in> set ev" for y
      using that attempts_events [of y "recognize e" k "[0..<max_retries]"] evr
      by (simp add: recognize_chunk_def)
    ultimately show ?thesis by auto
  qed
  then show ?thesis by (cases x) auto
qed

lemma chunk_loop_no_write:
  "x \<in> set (fst (chunk_loop e offset full_text)) \<Longrightarrow> \<not> is_write x"
proof (induction e offset full_text rule: chunk_loop.induct)
  case (1 e offset full_text)
  show ?case
  proof (cases "of_nat offset < duration_ms e")
    case False
    with "1.prems" show ?thesis by (simp add: chunk_loop.simps)
  next
    case True
    obtain ev1 r1 where p: "process_chunk e (offset div chunk_duration + 1) = (ev1, r1)"
      by (cases "process_chunk e (offset div chunk_duration + 1)")
    show ?thesis
    proof (cases r1)
      case None
      with True p "1.prems" have "x \<in> set ev1"
        by (simp add: chunk_loop.simps [of e offset])
      with p process_chunk_events [of x e "offset div chunk_duration + 1"] show ?thesis by simp
    next
      case (Some t)
      obtain ev2 r2 where l: "chunk_loop e (offset + chunk_duration) (full_text @ [t]) = (ev2, r2)"
        by (cases "chunk_loop e (offset + chunk_duration) (full_text @ [t])")
      with True p Some "1.prems" have "x \<in> set ev1 \<or> x \<in> set ev2"
        by (simp add: chunk_loop.simps [of e offset])
      then show ?thesis
      proof
        assume "x \<in> set ev1"
        with p process_chunk_events [of x e "offset div chunk_duration + 1"] show ?thesis by simp
      next
        assume "x \<in> set ev2"
        with "1.IH" [OF True p [symmetric] Some] l show ?thesis by simp
      qed
    qed
  qed
qed

lemma chunk_loop_done:
  assumes "\<not> j < n_chunks (duration_ms e)"
  shows "chunk_loop e (j * chunk_duration) ft = ([], Some ft)"
proof -
  from assms in_loop_iff [of j "duration_ms e"]
  have c: "(of_nat (j * chunk_duration) < duration_ms e) = False" by blast
  show ?thesis
    by (subst chunk_loop.simps) (simp only: c if_False)
qed

lemma chunk_loop_step:
  assumes "j < n_chunks (duration_ms e)"
    and "chunk_loop e (j * chunk_duration) ft = (ev, Some full)"
  shows "\<exists>ev1 t ev2. process_chunk e (Suc j) = (ev1, Some t) \<and>
     chunk_loop e (Suc j * chunk_duration) (ft @ [t]) = (ev2, Some full) \<and> ev = ev1 @ ev2"
proof -
  have d: "j * chunk_duration div chunk_duration + 1 = Suc j"
    by (simp add: chunk_duration_def)
  have o: "j * chunk_duration + chunk_duration = Suc j * chunk_duration"
    by simp
  from assms(1) in_loop_iff [of j "duration_ms e"]
  have c: "(of_nat (j * chunk_duration) < duration_ms e) = True" by blast
  have unfold: "chunk_loop e (j * chunk_duration) ft =
     (case process_chunk e (Suc j) of
        (ev, None) \<Rightarrow> (ev, None)
      | (ev, Some t) \<Rightarrow>
          (let (ev', r) = chunk_loop e (Suc j * chunk_duration) (ft @ [t]) in (ev @ ev', r)))"
    by (subst chunk_loop.simps) (simp only: c if_True d o)
  obtain ev1 r1 where p: "process_chunk e (Suc j) = (ev1, r1)"
    by (cases "process_chunk e (Suc j)")
  show ?thesis
  proof (cases r1)
    case None
    from assms(2) have "(ev1, None) = (ev, Some full)"
      by (simp only: unfold p None prod.case option.case)
    then show ?thesis by simp
  next
    case (Some t)
    obtain ev2 r2 where l: "chunk_loop e (Suc j * chunk_duration) (ft @ [t]) = (ev2, r2)"
      by (cases "chunk_loop e (Suc j * chunk_duration) (ft @ [t])")
    from assms(2) have "(ev1 @ ev2, r2) = (ev, Some full)"
      by (simp only: unfold p Some l prod.case option.case Let_def)
    then have "ev = ev1 @ ev2 \<and> r2 = Some full"
      by simp
    with p Some l show ?thesis by simp
  qed
qed

lemma chunk_loop_complete:
  "chunk_loop e (j * chunk_duration) ft = (ev, Some full) \<Longrightarrow>
   full = ft @ map (segment_text (recognize e)) [Suc j..<Suc (n_chunks (duration_ms e))] \<and>
   (\<forall>k. j < k \<and> k \<le> n_chunks (duration_ms e) \<longrightarrow>
      Export k \<in> set ev \<and> Call k 0 \<in> set ev \<and> save_ok e k \<and>
      snd (recognize_chunk (recognize e) k) \<noteq> Raised)"
proof (induction m \<equiv> "n_chunks (duration_ms e) - j" arbitrary: j ft ev full)
  case 0
  then have n: "\<not> j < n_chunks (duration_ms e)" by simp
  from chunk_loop_done [OF n, of ft] 0(2) have "full = ft" by simp
  with n show ?case by auto
next
  case (Suc m)
  then have lt: "j < n_chunks (duration_ms e)" by simp
  from chunk_loop_step [OF lt Suc.prems] obtain ev1 t ev2 where
    p: "process_chunk e (Suc j) = (ev1, Some t)" and
    l: "chunk_loop e (Suc j * chunk_duration) (ft @ [t]) = (ev2, Some full)" and
    ev: "ev = ev1 @ ev2"
    by blast
  from Suc.hyps(2) have m: "m = n_chunks (duration_ms e) - Suc j" by simp
  note ih = Suc.hyps(1) [OF m l]
  note pc = process_chunk_Some [OF p]
  from lt have r: "[Suc j..<Suc (n_chunks (duration_ms e))] =
      Suc j # [Suc (Suc j)..<Suc (n_chunks (duration_ms e))]"
    by (simp add: upt_conv_Cons)
  from ih pc(1) r
  have full: "full = ft @ map (segment_text (recognize e)) [Suc j..<Suc (n_chunks (duration_ms e))]"
    by simp
  from recognize_chunk_first_call [of "recognize e" "Suc j"] pc(4)
  have here: "Export (Suc j) \<in> set ev1 \<and> Call (Suc j) 0 \<in> set ev1"
    by auto
  have "Export k \<in> set ev \<and> Call k 0 \<in> set ev \<and> save_ok e k \<and>
      snd (recognize_chunk (recognize e) k) \<noteq> Raised"
    if k: "j < k \<and> k \<le> n_chunks (duration_ms e)" for k
  proof (cases "k = Suc j")
    case True
    with here pc(2,3) ev show ?thesis by simp
  next
    case False
    with k have "Suc j < k \<and> k \<le> n_chunks (duration_ms e)" by simp
    with ih ev show ?thesis by simp
  qed
  with full show ?case by blast
qed

lemma audio_to_text_written:
  assumes "WriteOutput doc \<in> set (snd (audio_to_text e))"
  shows "\<exists>ev full. chunk_loop e 0 [] = (ev, Some full) \<and> doc = format_text (join [32] full) \<and>
     snd (audio_to_text e) =
       ((if input_is_wav e then [] else [Convert]) @ ev) @ WriteOutput doc #
       (if (\<not> input_is_wav e \<or> input_is_temp e) \<and> remove_ok e then [RemoveTemp] else [])"
proof -
  obtain ev r where l: "chunk_loop e 0 [] = (ev, r)"
    by (cases "chunk_loop e 0 []")
  have nw: "WriteOutput doc \<notin> set ev"
    using chunk_loop_no_write [of "WriteOutput doc" e 0 "[]"] l by auto
  show ?thesis
  proof (cases r)
    case None
    with assms l nw show ?thesis
      by (auto simp: audio_to_text_def Let_def split: if_splits)
  next
    case (Some full)
    with assms l nw show ?thesis
      by (auto simp: audio_to_text_def Let_def split: if_splits)
  qed
qed


lemma abc_backend_recognized:
  "k \<noteq> 2 \<Longrightarrow> recognize_chunk abc_backend k = ([Call k 0], Success [96 + k])"
  by (simp add: recognize_chunk_def range_max_retries abc_backend_def)

lemma abc_backend_exhausted:
  "recognize_chunk abc_backend 2 =
     ([Call 2 0, Sleep 5000, Call 2 1, Sleep 5000, Call 2 2, Sleep 5000, Call 2 3, Sleep 5000,
       Call 2 4], NoSuccess)"
  unfolding recognize_chunk_def range_max_retries
  by (simp add: abc_backend_def max_retries_def)

lemma abc_backend_exhausted_Suc:
  "recognize_chunk abc_backend (Suc (Suc 0)) =
     ([Call 2 0, Sleep 5000, Call 2 1, Sleep 5000, Call 2 2, Sleep 5000, Call 2 3, Sleep 5000,
       Call 2 4], NoSuccess)"
  using abc_backend_exhausted by (simp add: numeral_2_eq_2)

lemma placeholder_Suc: "placeholder (Suc (Suc 0)) = placeholder 2"
  by (simp add: numeral_2_eq_2)

lemma sample_run_75:
  "audio_to_text (sample_env 75000 abc_backend) =
     (True, [Export 1, Call 1 0, Sleep 100,
             Export 2, Call 2 0, Sleep 5000, Call 2 1, Sleep 5000, Call 2 2, Sleep 5000,
               Call 2 3, Sleep 5000, Call 2 4, Sleep 100,
             Export 3, Call 3 0, Sleep 100,
             WriteOutput (format_text (join [32] [[97], placeholder 2, [99]]))])"
  by (simp add: audio_to_text_def sample_env_def abc_backend_def chunk_loop.simps
      chunk_duration_def process_chunk_def abc_backend_recognized abc_backend_exhausted_Suc
      placeholder_Suc)

lemma sample_run_10:
  "audio_to_text (sample_env 10000 abc_backend) =
     (True, [Export 1, Call 1 0, Sleep 100, WriteOutput (format_text (join [32] [[97]]))])"
  by (simp add: audio_to_text_def sample_env_def abc_backend_def chunk_loop.simps
      chunk_duration_def process_chunk_def abc_backend_recognized abc_backend_exhausted_Suc
      placeholder_Suc)

lemma undecodable_run: "audio_to_text undecodable_env = (False, [])"
  by (simp add: audio_to_text_def undecodable_env_def)















lemma n_chunks_sample: "n_chunks (duration_ms (sample_env 75000 abc_backend)) = 3"
proof -
  have "\<lceil>75000 / of_nat chunk_duration :: rat\<rceil> = 3"
    by (rule ceiling_unique) (simp_all add: chunk_duration_def)
  then show ?thesis
    by (simp add: n_chunks_def sample_env_def)
qed

text \<open>
  Claim C5. When the conversion to WAV or the decoding of the WAV file fails, the run
  returns \<open>False\<close>, exports no chunk, calls the backend for no chunk and writes no
  output file. In any run the output file is written at most once, after every chunk
  \<open>1, \<dots>, n\<close> has been exported and submitted to the backend; only the removal of the
  temporary WAV file can follow it.
\<close>

theorem unreadable_audio_writes_nothing:
  "((\<not> input_is_wav e \<and> \<not> convert_ok e) \<or> \<not> load_ok e \<longrightarrow>
      \<not> fst (audio_to_text e) \<and>
      (\<forall>x \<in> set (snd (audio_to_text e)). \<not> is_export x \<and> \<not> is_call x \<and> \<not> is_write x)) \<and>
   (WriteOutput doc \<in> set (snd (audio_to_text e)) \<longrightarrow>
      (\<exists>before after. snd (audio_to_text e) = before @ WriteOutput doc # after \<and>
         (\<forall>k. 1 \<le> k \<and> k \<le> n_chunks (duration_ms e) \<longrightarrow>
            Export k \<in> set before \<and> Call k 0 \<in> set before) \<and>
         (\<forall>x \<in> set before. \<not> is_write x) \<and>
         (\<forall>x \<in> set after. x = RemoveTemp)))"
proof (rule conjI; rule impI)
  assume "(\<not> input_is_wav e \<and> \<not> convert_ok e) \<or> \<not> load_ok e"
  then show "\<not> fst (audio_to_text e) \<and>
      (\<forall>x \<in> set (snd (audio_to_text e)). \<not> is_export x \<and> \<not> is_call x \<and> \<not> is_write x)"
    by (auto simp: audio_to_text_def)
next
  assume w: "WriteOutput doc \<in> set (snd (audio_to_text e))"
  from audio_to_text_written [OF w] obtain ev full where
    l: "chunk_loop e (0 * chunk_duration) [] = (ev, Some full)" and
    tr: "snd (audio_to_text e) =
       ((if input_is_wav e then [] else [Convert]) @ ev) @ WriteOutput doc #
       (if (\<not> input_is_wav e \<or> input_is_temp e) \<and> remove_ok e then [RemoveTemp] else [])"
    by auto
  let ?before = "(if input_is_wav e then [] else [Convert]) @ ev"
  let ?after = "if (\<not> input_is_wav e \<or> input_is_temp e) \<and> remove_ok e then [RemoveTemp] else []"
  from chunk_loop_complete [OF l]
  have all: "\<forall>k. 1 \<le> k \<and> k \<le> n_chunks (duration_ms e) \<longrightarrow>
      Export k \<in> set ?before \<and> Call k 0 \<in> set ?before"
    by auto
  have nw: "\<forall>x \<in> set ?before. \<not> is_write x"
    using chunk_loop_no_write [of _ e "0 * chunk_duration" "[]"] l by auto
  have af: "\<forall>x \<in> set ?after. x = RemoveTemp"
    by simp
  from tr all nw af
  show "\<exists>before after. snd (audio_to_text e) = before @ WriteOutput doc # after \<and>
         (\<forall>k. 1 \<le> k \<and> k \<le> n_chunks (duration_ms e) \<longrightarrow>
            Export k \<in> set before \<and> Call k 0 \<in> set before) \<and>
         (\<forall>x \<in> set before. \<not> is_write x) \<and>
         (\<forall>x \<in> set after. x = RemoveTemp)"
    by blast
qed

theorem unreadable_audio_writes_nothing_witness:
  "\<not> fst (audio_to_text undecodable_env) \<and>
   snd (audio_to_text undecodable_env) = [] \<and>
   WriteOutput (format_text (join [32] [[97], placeholder 2, [99]]))
     \<in> set (snd (audio_to_text (sample_env 75000 abc_backend))) \<and>
   Export 3 \<in> set (snd (audio_to_text (sample_env 75000 abc_backend))) \<and>
   Call 3 0 \<in> set (snd (audio_to_text (sample_env 75000 abc_backend)))"
proof -
  have h1: "(\<not> input_is_wav undecodable_env \<and> \<not> convert_ok undecodable_env) \<or>
      \<not> load_ok undecodable_env"
    by (simp add: undecodable_env_def)
  have h2: "WriteOutput (format_text (join [32] [[97], placeholder 2, [99]]))
     \<in> set (snd (audio_to_text (sample_env 75000 abc_backend)))"
    by (simp add: sample_run_75)
  have e: "snd (audio_to_text undecodable_env) = []"
    by (simp add: undecodable_run)
  from h1 unreadable_audio_writes_nothing [of undecodable_env "[]"]
  have a: "\<not> fst (audio_to_text undecodable_env)" by blast
  from h2 unreadable_audio_writes_nothing
    [of "sample_env 75000 abc_backend" "format_text (join [32] [[97], placeholder 2, [99]])"]
  obtain before after where
    tr: "snd (audio_to_text (sample_env 75000 abc_backend)) =
        before @ WriteOutput (format_text (join [32] [[97], placeholder 2, [99]])) # after" and
    all: "\<forall>k. 1 \<le> k \<and> k \<le> n_chunks (duration_ms (sample_env 75000 abc_backend)) \<longrightarrow>
            Export k \<in> set before \<and> Call k 0 \<in> set before"
    by blast
  from all have "Export 3 \<in> set before \<and> Call 3 0 \<in> set before"
    unfolding n_chunks_sample by simp
  then have b: "Export 3 \<in> set (snd (audio_to_text (sample_env 75000 abc_backend))) \<and>
      Call 3 0 \<in> set (snd (audio_to_text (sample_env 75000 abc_backend)))"
    unfolding tr by simp
  from a e h2 b show ?thesis by blast
qed

text \<open>
  Claim C6 fails for the loop of \<open>audio_to_text\<close>: a WAV input of 10 seconds, shorter
  than the 30-second chunk length, is still cut and exported as chunk 1.
\<close>

theorem short_audio_chunk_is_exported:
  "duration_ms (sample_env 10000 abc_backend) \<le> of_nat chunk_duration \<and>
   Export 1 \<in> set (snd (audio_to_text (sample_env 10000 abc_backend)))"
  by (simp add: sample_run_10) (simp add: sample_env_def chunk_duration_def)

section \<open>Properties of splitting and joining\<close>

lemma is_space_32 [simp]: "is_space 32"
  by (simp add: is_space_def)

lemma is_space_10 [simp]: "is_space 10"
  by (simp add: is_space_def)

lemma words_from_append:
  "list_all (\<lambda>c. \<not> is_space c) u \<Longrightarrow> words_from w (u @ cs) = words_from (w @ u) cs"
  by (induction u arbitrary: w) simp_all

lemma words_from_word: "is_word u \<Longrightarrow> words_from [] u = [u]"
  using words_from_append [of u "[]" "[]"] by (simp add: is_word_def)

lemma words_from_words:
  "list_all (\<lambda>c. \<not> is_space c) w \<Longrightarrow> list_all is_word (words_from w cs)"
  by (induction cs arbitrary: w) (auto simp: is_word_def)

lemma split_ws_words: "list_all is_word (split_ws text)"
  by (simp add: split_ws_def words_from_words)

lemma split_ws_join: "list_all is_word ws \<Longrightarrow> split_ws (join [32] ws) = ws"
proof (induction "[32::nat]" ws rule: join.induct)
  case 1
  then show ?case by (simp add: split_ws_def)
next
  case (2 x)
  then show ?case by (simp add: split_ws_def words_from_word)
next
  case (3 x y ys)
  from "3.prems" have x: "is_word x" by simp
  then have "words_from [] (x @ 32 # join [32] (y # ys)) = words_from x (32 # join [32] (y # ys))"
    using words_from_append [of x "[]" "32 # join [32] (y # ys)"] by (simp add: is_word_def)
  also have "\<dots> = x # words_from [] (join [32] (y # ys))"
    using x by (simp add: is_word_def)
  also have "\<dots> = x # y # ys"
    using "3.hyps" "3.prems" by (simp add: split_ws_def)
  finally show ?case by (simp add: split_ws_def)
qed

lemma split_ws_collapse: "split_ws (collapse_ws text) = split_ws text"
  by (simp add: collapse_ws_def split_ws_join split_ws_words)

lemma collapse_ws_idem: "collapse_ws (collapse_ws text) = collapse_ws text"
  by (simp add: collapse_ws_def split_ws_join split_ws_words)

lemma pieces_from_append:
  "sep \<notin> set u \<Longrightarrow> pieces_from sep w (u @ cs) = pieces_from sep (w @ u) cs"
  by (induction u arbitrary: w) auto

lemma split_on_join:
  "ls \<noteq> [] \<Longrightarrow> \<forall>l \<in> set ls. sep \<notin> set l \<Longrightarrow> split_on sep (join [sep] ls) = ls"
proof (induction "[sep]" ls rule: join.induct)
  case 1
  then show ?case by simp
next
  case (2 x)
  then show ?case
    using pieces_from_append [of sep x "[]" "[]"] by (simp add: split_on_def)
next
  case (3 x y ys)
  from "3.prems" have x: "sep \<notin> set x" by simp
  have "pieces_from sep [] (x @ sep # join [sep] (y # ys)) =
      pieces_from sep x (sep # join [sep] (y # ys))"
    using pieces_from_append [OF x, of "[]" "sep # join [sep] (y # ys)"] by simp
  also have "\<dots> = x # pieces_from sep [] (join [sep] (y # ys))"
    by simp
  also have "\<dots> = x # y # ys"
    using "3.hyps" "3.prems" by (simp add: split_on_def)
  finally show ?case by (simp add: split_on_def)
qed

lemma set_join: "set (join sep ws) \<subseteq> set sep \<union> \<Union> (set ` set ws)"
  by (induction sep ws rule: join.induct) auto

lemma line_no_newline:
  assumes "list_all is_word line"
  shows "10 \<notin> set (join [32] line)"
proof
  assume "10 \<in> set (join [32] line)"
  with set_join [of "[32]" line] obtain w where w: "w \<in> set line" "10 \<in> set w"
    by auto
  from assms w(1) have "\<forall>c \<in> set w. \<not> is_space c"
    by (simp add: list_all_iff is_word_def)
  with w(2) have "\<not> is_space 10"
    by blast
  then show False by simp
qed

lemma length_join_snoc:
  "length (join [32] (ws @ [w])) =
     (if ws = [] then length w else length (join [32] ws) + 1 + length w)"
  by (induction "[32::nat]" ws rule: join.induct) simp_all

section \<open>Properties of the formatters\<close>

lemma render_step:
  "fmt_step m c (render_state s) w = render_state (lay_step m c s w)"
  by (simp add: fmt_step_def lay_step_def render_state_def render_para_def Let_def)

lemma render_fold:
  "foldl (fmt_step m c) (render_state s) ws = render_state (foldl (lay_step m c) s ws)"
  by (induction ws arbitrary: s) (simp_all add: render_step)

lemma render_finish: "fmt_finish (render_state s) = map render_para (lay_finish s)"
  by (simp add: fmt_finish_def lay_finish_def render_state_def render_para_def Let_def)

lemma render_init: "render_state lay_init = fmt_init"
  by (simp add: render_state_def lay_init_def fmt_init_def)

lemma reflow_layout: "reflow m c ws = map render_para (layout m c ws)"
  unfolding reflow_def layout_def render_init [symmetric] render_fold render_finish ..

lemma lay_inv_init: "0 < c \<Longrightarrow> lay_inv m c lay_init"
  by (simp add: lay_inv_def lay_init_def)

lemma lay_inv_step:
  assumes "0 < c" and "lay_inv m c s"
  shows "lay_inv m c (lay_step m c s w)"
proof (cases "l_length s + length w + 1 \<le> m")
  case True
  with assms(2) show ?thesis
    by (auto simp: lay_inv_def lay_step_def length_join_snoc)
next
  case False
  show ?thesis
  proof (cases "l_line s = []")
    case True
    with False assms show ?thesis
      by (auto simp: lay_inv_def lay_step_def)
  next
    case line: False
    from assms(2) have len: "length (l_para s) < c" by (simp add: lay_inv_def)
    from assms(2) line have ok: "length (join [32] (l_line s)) \<le> m \<or> length (l_line s) = 1"
      by (auto simp: lay_inv_def)
    show ?thesis
    proof (cases "c \<le> length (l_para s @ [l_line s])")
      case True
      with len have "length (l_para s @ [l_line s]) = c" by simp
      with True False line assms(2) ok show ?thesis
        by (auto simp: lay_inv_def lay_step_def Let_def)
    next
      case nc: False
      with False line assms(2) ok show ?thesis
        by (auto simp: lay_inv_def lay_step_def Let_def)
    qed
  qed
qed

lemma lay_words_step: "lay_words (lay_step m c s w) = lay_words s @ [w]"
  by (simp add: lay_words_def lay_step_def Let_def)

lemma lay_inv_fold:
  "0 < c \<Longrightarrow> lay_inv m c s \<Longrightarrow> lay_inv m c (foldl (lay_step m c) s ws)"
  by (induction ws arbitrary: s) (simp_all add: lay_inv_step)

lemma lay_words_fold: "lay_words (foldl (lay_step m c) s ws) = lay_words s @ ws"
  by (induction ws arbitrary: s) (simp_all add: lay_words_step)

lemma lay_finish_words: "concat (concat (lay_finish s)) = lay_words s"
  by (simp add: lay_finish_def lay_words_def Let_def)

lemma layout_words: "concat (concat (layout m c ws)) = ws"
  by (simp add: layout_def lay_finish_words lay_words_fold) (simp add: lay_words_def lay_init_def)

lemma lay_finish_paras:
  assumes "lay_inv m c s"
  shows "(\<forall>p \<in> set (lay_finish s). p \<noteq> [] \<and> length p \<le> c) \<and>
         (\<forall>p \<in> set (butlast (lay_finish s)). length p = c) \<and>
         (\<forall>p \<in> set (lay_finish s). \<forall>line \<in> set p.
            line \<noteq> [] \<and> (length (join [32] line) \<le> m \<or> length line = 1))"
proof -
  from assms have a: "\<forall>p \<in> set (l_paras s). length p = c" and b: "length (l_para s) < c"
    and l: "\<forall>line \<in> set (concat (l_paras s)) \<union> set (l_para s).
         line \<noteq> [] \<and> (length (join [32] line) \<le> m \<or> length line = 1)"
    and d: "length (join [32] (l_line s)) \<le> l_length s"
    and e: "l_length s \<le> m \<or> length (l_line s) = 1"
    by (simp_all add: lay_inv_def)
  from b a have c: "0 < c" by simp
  from d e have cur: "length (join [32] (l_line s)) \<le> m \<or> length (l_line s) = 1"
    by auto
  from a b c show ?thesis
    using l cur by (auto simp: lay_finish_def Let_def butlast_append dest: in_set_butlastD)
qed

lemma layout_shape:
  assumes "0 < c"
  shows "(\<forall>p \<in> set (layout m c ws). p \<noteq> [] \<and> length p \<le> c) \<and>
         (\<forall>p \<in> set (butlast (layout m c ws)). length p = c) \<and>
         (\<forall>p \<in> set (layout m c ws). \<forall>line \<in> set p.
            line \<noteq> [] \<and> (length (join [32] line) \<le> m \<or> length line = 1))"
  unfolding layout_def
  by (rule lay_finish_paras) (rule lay_inv_fold [OF assms lay_inv_init [OF assms]])

lemma layout_is_word:
  assumes "list_all is_word ws" and "p \<in> set (layout m c ws)" and "line \<in> set p"
  shows "list_all is_word line"
proof -
  from assms(2,3) have "set line \<subseteq> set (concat (concat (layout m c ws)))"
    by auto
  with assms(1) show ?thesis
    by (auto simp: layout_words list_all_iff)
qed

lemma split_on_render_para:
  assumes "list_all is_word ws" and "p \<in> set (layout m c ws)" and "0 < c"
  shows "split_on 10 (render_para p) = map (join [32]) p"
proof -
  from layout_shape [OF assms(3), of m ws] assms(2) have "p \<noteq> []"
    by blast
  moreover have "\<forall>l \<in> set (map (join [32]) p). 10 \<notin> set l"
    using layout_is_word [OF assms(1,2)] line_no_newline by auto
  ultimately show ?thesis
    unfolding render_para_def by (intro split_on_join) simp_all
qed

lemma words_of_render_para:
  assumes "list_all is_word ws" and "p \<in> set (layout m c ws)" and "0 < c"
  shows "concat (map split_ws (split_on 10 (render_para p))) = concat p"
proof -
  have "map split_ws (map (join [32]) p) = p"
    using layout_is_word [OF assms(1,2)] by (simp add: map_idI split_ws_join)
  then show ?thesis
    by (simp only: split_on_render_para [OF assms])
qed

lemma concat_map_concat: "concat (map concat xss) = concat (concat xss)"
  by (induction xss) simp_all

lemma reflow_words:
  assumes "0 < c" and "list_all is_word ws"
  shows "concat (map (\<lambda>p. concat (map split_ws (split_on 10 p))) (reflow m c ws)) = ws"
proof -
  have "map (\<lambda>p. concat (map split_ws (split_on 10 p))) (reflow m c ws) =
      map concat (layout m c ws)"
    unfolding reflow_layout map_map
    by (rule map_cong [OF refl]) (simp add: words_of_render_para [OF assms(2) _ assms(1)])
  then show ?thesis
    by (simp add: concat_map_concat layout_words)
qed

lemma reflow_lines:
  assumes "0 < c" and "list_all is_word ws"
    and "p \<in> set (reflow m c ws)" and "l \<in> set (split_on 10 p)"
  shows "length l \<le> m \<or> l \<in> set ws"
proof -
  from assms(3) obtain q where q: "q \<in> set (layout m c ws)" "p = render_para q"
    by (auto simp: reflow_layout)
  with assms(4) split_on_render_para [OF assms(2) q(1) assms(1)]
  obtain line where line: "line \<in> set q" "l = join [32] line"
    by auto
  from layout_shape [OF assms(1), of m ws] q(1) line(1)
  have "length (join [32] line) \<le> m \<or> length line = 1"
    by blast
  then show ?thesis
  proof
    assume "length (join [32] line) \<le> m"
    with line(2) show ?thesis by simp
  next
    assume "length line = 1"
    then obtain w where w: "line = [w]"
      by (cases line) auto
    from line(1) w q(1) have "[w] \<in> set (concat (layout m c ws))"
      unfolding set_concat by blast
    then have "w \<in> set (concat (concat (layout m c ws)))"
      unfolding set_concat [of "concat (layout m c ws)"] by (intro UN_I [of "[w]"]) simp_all
    with w line(2) show ?thesis
      by (simp add: layout_words)
  qed
qed

lemma reflow_paragraphs:
  assumes "0 < c" and "list_all is_word ws"
  shows "(\<forall>p \<in> set (reflow m c ws). 1 \<le> length (split_on 10 p) \<and> length (split_on 10 p) \<le> c) \<and>
         (\<forall>p \<in> set (butlast (reflow m c ws)). length (split_on 10 p) = c)"
proof -
  note shape = layout_shape [OF assms(1), of m ws]
  have len: "length (split_on 10 (render_para q)) = length q" if "q \<in> set (layout m c ws)" for q
    by (simp add: split_on_render_para [OF assms(2) that assms(1)])
  have "1 \<le> length (split_on 10 p) \<and> length (split_on 10 p) \<le> c"
    if "p \<in> set (reflow m c ws)" for p
  proof -
    from that obtain q where q: "q \<in> set (layout m c ws)" "p = render_para q"
      by (auto simp: reflow_layout)
    with shape have "q \<noteq> [] \<and> length q \<le> c" by blast
    with len [OF q(1)] q(2) show ?thesis
      by (cases q) auto
  qed
  moreover have "length (split_on 10 p) = c" if "p \<in> set (butlast (reflow m c ws))" for p
  proof -
    from that obtain q where q: "q \<in> set (butlast (layout m c ws))" "p = render_para q"
      by (auto simp: reflow_layout map_butlast [symmetric])
    with shape have "length q = c" by blast
    with len [OF in_set_butlastD [OF q(1)]] q(2) show ?thesis by simp
  qed
  ultimately show ?thesis by blast
qed

lemma body_main_eq: "body_main t = reflow 120 5 (split_ws t)"
  by (simp add: body_main_def split_ws_collapse)

lemma body_local_eq: "body_local t = reflow 80 4 (split_ws t)"
  by (simp add: body_local_def split_ws_collapse)

lemma format_text_body:
  "format_text t = hdr_main @ join [10, 10] (body_main t)
     @ lbl_lines @ str_nat (sum_list (map (\<lambda>p. length (split_on 10 p)) (body_main t))) @ [10]
     @ lbl_words @ str_nat (length (split_ws t)) @ [10]
     @ lbl_chars @ str_nat (length (collapse_ws t)) @ [10]
     @ lbl_paras @ str_nat (length (body_main t)) @ [10]"
  unfolding format_text_def Let_def body_main_def collapse_ws_def [symmetric] split_ws_collapse ..

lemma format_whisper_body:
  "format_whisper_result t = hdr_whisper @ join [10, 10] (body_local t)
     @ stats_hdr
     @ lbl_words @ str_nat (length (split_ws t)) @ [10]
     @ lbl_chars @ str_nat (length (collapse_ws t)) @ [10]"
  unfolding format_whisper_result_def Let_def body_local_def collapse_ws_def [symmetric]
    split_ws_collapse ..

lemma format_vosk_body:
  "format_vosk_result t = hdr_vosk @ join [10, 10] (body_local t)
     @ stats_hdr
     @ lbl_words @ str_nat (length (split_ws t)) @ [10]
     @ lbl_chars @ str_nat (length (collapse_ws t)) @ [10]"
  unfolding format_vosk_result_def Let_def body_local_def collapse_ws_def [symmetric]
    split_ws_collapse ..

lemma list_all_is_word_split: "list_all is_word (split_ws t)"
  by (rule split_ws_words)

lemma is_word_replicate: "0 < n \<Longrightarrow> is_word (replicate n 97)"
  by (simp add: is_word_def list_all_iff is_space_def)

lemma body_of_one_word:
  assumes "is_word u" and "m < length u" and "0 < c"
  shows "reflow m c (split_ws (collapse_ws u)) = [u]"
proof -
  from assms(1) have "split_ws u = [u]"
    by (simp add: split_ws_def words_from_word)
  then have "split_ws (collapse_ws u) = [u]"
    by (simp add: split_ws_collapse)
  with assms(2,3) show ?thesis
    by (simp add: reflow_def fmt_step_def fmt_init_def fmt_finish_def Let_def)
qed

text \<open>
  Claim C4 fails for a word longer than the line width: the text made of one word of
  121 letters is laid out by \<open>format_text\<close> as one body line of 121 characters, more than
  the maximum line length of 120.
\<close>

theorem overlong_word_exceeds_line_width:
  "body_main (replicate 121 97) = [replicate 121 97] \<and>
   split_on 10 (replicate 121 97) = [replicate 121 97] \<and>
   \<not> length (replicate 121 97 :: ustr) \<le> 120"
proof -
  have w: "is_word (replicate 121 97)"
    by (rule is_word_replicate) simp
  have "body_main (replicate 121 97) = [replicate 121 97]"
    unfolding body_main_def by (rule body_of_one_word [OF w]) simp_all
  moreover have "split_on 10 (join [10] [replicate 121 97]) = [replicate 121 97]"
    by (rule split_on_join) simp_all
  ultimately show ?thesis by simp
qed

lemma split_on_sample: "split_on 10 [97, 97, 32, 98] = [[97, 97, 32, 98]]"
  by (simp add: split_on_def)

text \<open>
  Claim C4, as amended. For every input text and each of the three formatters, the body
  of the document is the join of the paragraphs of the loop; the words of the body
  lines, read in order, are exactly the words of the input, so no word is split or lost;
  a body line is longer than the maximum line length (120 in \<open>format_text\<close>, 80 in the
  Whisper and Vosk formatters) only when it is a single word of the input that is itself
  longer; and every paragraph but the last has exactly the line cap (5, resp. 4) of
  lines, the last between one line and the cap, so a paragraph ends only at the cap or
  at the end of the input.
\<close>

theorem reflow_keeps_words_whole:
  "prefix (hdr_main @ join [10, 10] (body_main t)) (format_text t) \<and>
   prefix (hdr_whisper @ join [10, 10] (body_local t)) (format_whisper_result t) \<and>
   prefix (hdr_vosk @ join [10, 10] (body_local t)) (format_vosk_result t) \<and>
   concat (map (\<lambda>p. concat (map split_ws (split_on 10 p))) (body_main t)) = split_ws t \<and>
   concat (map (\<lambda>p. concat (map split_ws (split_on 10 p))) (body_local t)) = split_ws t \<and>
   (\<forall>p \<in> set (body_main t). \<forall>l \<in> set (split_on 10 p). length l \<le> 120 \<or> l \<in> set (split_ws t)) \<and>
   (\<forall>p \<in> set (body_local t). \<forall>l \<in> set (split_on 10 p). length l \<le> 80 \<or> l \<in> set (split_ws t)) \<and>
   (\<forall>p \<in> set (body_main t). 1 \<le> length (split_on 10 p) \<and> length (split_on 10 p) \<le> 5) \<and>
   (\<forall>p \<in> set (butlast (body_main t)). length (split_on 10 p) = 5) \<and>
   (\<forall>p \<in> set (body_local t). 1 \<le> length (split_on 10 p) \<and> length (split_on 10 p) \<le> 4) \<and>
   (\<forall>p \<in> set (butlast (body_local t)). length (split_on 10 p) = 4)"
proof -
  note w = split_ws_words [of t]
  have p1: "prefix (hdr_main @ join [10, 10] (body_main t)) (format_text t)"
    by (simp add: format_text_body)
  have p2: "prefix (hdr_whisper @ join [10, 10] (body_local t)) (format_whisper_result t)"
    by (simp add: format_whisper_body)
  have p3: "prefix (hdr_vosk @ join [10, 10] (body_local t)) (format_vosk_result t)"
    by (simp add: format_vosk_body)
  have a1: "concat (map (\<lambda>p. concat (map split_ws (split_on 10 p))) (body_main t)) = split_ws t"
    unfolding body_main_eq by (rule reflow_words [OF _ w]) simp
  have a2: "concat (map (\<lambda>p. concat (map split_ws (split_on 10 p))) (body_local t)) = split_ws t"
    unfolding body_local_eq by (rule reflow_words [OF _ w]) simp
  have b1: "\<forall>p \<in> set (body_main t). \<forall>l \<in> set (split_on 10 p).
      length l \<le> 120 \<or> l \<in> set (split_ws t)"
    unfolding body_main_eq using reflow_lines [OF _ w, of 5 _ 120] by simp
  have b2: "\<forall>p \<in> set (body_local t). \<forall>l \<in> set (split_on 10 p).
      length l \<le> 80 \<or> l \<in> set (split_ws t)"
    unfolding body_local_eq using reflow_lines [OF _ w, of 4 _ 80] by simp
  have c1: "(\<forall>p \<in> set (body_main t). 1 \<le> length (split_on 10 p) \<and> length (split_on 10 p) \<le> 5) \<and>
      (\<forall>p \<in> set (butlast (body_main t)). length (split_on 10 p) = 5)"
    unfolding body_main_eq by (rule reflow_paragraphs [OF _ w]) simp
  have c2: "(\<forall>p \<in> set (body_local t). 1 \<le> length (split_on 10 p) \<and> length (split_on 10 p) \<le> 4) \<and>
      (\<forall>p \<in> set (butlast (body_local t)). length (split_on 10 p) = 4)"
    unfolding body_local_eq by (rule reflow_paragraphs [OF _ w]) simp
  from p1 p2 p3 a1 a2 b1 b2 c1 c2 show ?thesis
    by blast
qed

lemma is_space_97_98 [simp]: "\<not> is_space 97" "\<not> is_space 98"
  by (simp_all add: is_space_def)

lemma body_main_sample: "body_main [97, 97, 32, 32, 98] = [[97, 97, 32, 98]]"
  by (simp add: body_main_def collapse_ws_def split_ws_def reflow_def fmt_step_def fmt_init_def
      fmt_finish_def)

theorem reflow_keeps_words_whole_witness:
  "body_main [97, 97, 32, 32, 98] = [[97, 97, 32, 98]] \<and>
   split_ws [97, 97, 32, 32, 98] = [[97, 97], [98]] \<and>
   concat (map (\<lambda>p. concat (map split_ws (split_on 10 p))) (body_main [97, 97, 32, 32, 98])) =
     split_ws [97, 97, 32, 32, 98] \<and>
   split_on 10 [97, 97, 32, 98] = [[97, 97, 32, 98]] \<and>
   length [97, 97, 32, 98 :: nat] \<le> 120 \<and>
   1 \<le> length (split_on 10 [97, 97, 32, 98]) \<and> length (split_on 10 [97, 97, 32, 98]) \<le> 5"
proof -
  have e: "split_ws [97, 97, 32, 32, 98] = [[97, 97], [98]]"
    by (simp add: split_ws_def)
  have m: "[97, 97, 32, 98] \<in> set (body_main [97, 97, 32, 32, 98])"
    by (simp add: body_main_sample)
  note t = reflow_keeps_words_whole [of "[97, 97, 32, 32, 98]"]
  from t have w: "concat (map (\<lambda>p. concat (map split_ws (split_on 10 p)))
      (body_main [97, 97, 32, 32, 98])) = split_ws [97, 97, 32, 32, 98]"
    by blast
  from t m have c: "1 \<le> length (split_on 10 [97, 97, 32, 98]) \<and>
      length (split_on 10 [97, 97, 32, 98]) \<le> 5"
    by blast
  from body_main_sample e w c split_on_sample show ?thesis
    by simp
qed

lemma format_whisper_sample:
  "format_whisper_result [97] =
     hdr_whisper @ [97] @ stats_hdr @ lbl_words @ [49, 10] @ lbl_chars @ [49, 10]"
  by (simp add: format_whisper_result_def split_ws_def reflow_def fmt_step_def fmt_init_def
      fmt_finish_def str_nat.simps)

text \<open>
  Claim C7 fails for \<open>format_whisper_result\<close>: the document for the text \<open>a\<close> ends with
  the word count and the character count only; the labels of the line count and of the
  paragraph count do not occur in it.
\<close>

theorem whisper_statistics_lack_line_count:
  "format_whisper_result [97] =
     hdr_whisper @ [97] @ stats_hdr @ lbl_words @ [49, 10] @ lbl_chars @ [49, 10] \<and>
   \<not> sublist lbl_lines (format_whisper_result [97]) \<and>
   \<not> sublist lbl_paras (format_whisper_result [97])"
  by (simp add: format_whisper_sample)
    (simp add: hdr_whisper_def stats_hdr_def lbl_words_def lbl_chars_def lbl_lines_def lbl_paras_def
      sublist_code)

text \<open>
  Claim C7, as amended. The document of \<open>format_text\<close> ends with four counts: lines,
  words, characters and paragraphs, where the words and characters are counted on the
  whitespace-collapsed text and the lines and paragraphs are those of the re-flowed body.
  The documents of \<open>format_whisper_result\<close> and \<open>format_vosk_result\<close> end with a
  statistics block of two counts, the words and the characters of the collapsed text.
\<close>

theorem statistics_block:
  "suffix (lbl_lines @ str_nat (length (concat (map (split_on 10) (body_main t)))) @ [10]
     @ lbl_words @ str_nat (length (split_ws t)) @ [10]
     @ lbl_chars @ str_nat (length (collapse_ws t)) @ [10]
     @ lbl_paras @ str_nat (length (body_main t)) @ [10]) (format_text t) \<and>
   suffix (stats_hdr
     @ lbl_words @ str_nat (length (split_ws t)) @ [10]
     @ lbl_chars @ str_nat (length (collapse_ws t)) @ [10]) (format_whisper_result t) \<and>
   suffix (stats_hdr
     @ lbl_words @ str_nat (length (split_ws t)) @ [10]
     @ lbl_chars @ str_nat (length (collapse_ws t)) @ [10]) (format_vosk_result t)"
proof -
  have n: "sum_list (map (\<lambda>p. length (split_on 10 p)) (body_main t)) =
      length (concat (map (split_on 10) (body_main t)))"
    by (simp add: length_concat comp_def)
  have "suffix (lbl_lines @ str_nat (length (concat (map (split_on 10) (body_main t)))) @ [10]
     @ lbl_words @ str_nat (length (split_ws t)) @ [10]
     @ lbl_chars @ str_nat (length (collapse_ws t)) @ [10]
     @ lbl_paras @ str_nat (length (body_main t)) @ [10]) (format_text t)"
    unfolding format_text_body n
    by (rule suffixI [of _ "hdr_main @ join [10, 10] (body_main t)"]) simp
  moreover have "suffix (stats_hdr
     @ lbl_words @ str_nat (length (split_ws t)) @ [10]
     @ lbl_chars @ str_nat (length (collapse_ws t)) @ [10]) (format_whisper_result t)"
    unfolding format_whisper_body
    by (rule suffixI [of _ "hdr_whisper @ join [10, 10] (body_local t)"]) simp
  moreover have "suffix (stats_hdr
     @ lbl_words @ str_nat (length (split_ws t)) @ [10]
     @ lbl_chars @ str_nat (length (collapse_ws t)) @ [10]) (format_vosk_result t)"
    unfolding format_vosk_body
    by (rule suffixI [of _ "hdr_vosk @ join [10, 10] (body_local t)"]) simp
  ultimately show ?thesis by blast
qed

text \<open>
  Claim C8. Each formatter is a function of its text alone, so two applications to the
  same collapsed text give the same document; moreover collapsing is stable: collapsing
  a collapsed text changes nothing, and formatting the collapsed text gives the same
  document as formatting the original text.
\<close>

theorem format_of_collapsed_text:
  "collapse_ws (collapse_ws t) = collapse_ws t \<and>
   format_text (collapse_ws t) = format_text t \<and>
   format_whisper_result (collapse_ws t) = format_whisper_result t \<and>
   format_vosk_result (collapse_ws t) = format_vosk_result t"
proof -
  have b1: "body_main (collapse_ws t) = body_main t"
    by (simp add: body_main_eq split_ws_collapse)
  have b2: "body_local (collapse_ws t) = body_local t"
    by (simp add: body_local_eq split_ws_collapse)
  show ?thesis
    unfolding format_text_body format_whisper_body format_vosk_body b1 b2
      split_ws_collapse collapse_ws_idem
    by simp
qed

end
